theory Spec2Isabelle
  imports Complex_Main "HOL-Library.AList"
begin

section \<open>Python values used by the retrieval core\<close>

text \<open>
  Strings are lists of characters; a character stands for one code point below 256.
  \<open>isspace\<close> is the set of code points that \<^verbatim>\<open>str.split()\<close> and \<^verbatim>\<open>str.strip()\<close> treat as
  whitespace in that range: tab, line feed, vertical tab, form feed, carriage return, the
  four separators 28 to 31, space, next line (133) and no-break space (160).
\<close>

definition isspace :: "char \<Rightarrow> bool" where
  "isspace c = (of_char c \<in> set [9, 10, 11, 12, 13, 28, 29, 30, 31, 32, 133, 160 :: nat])"

definition strip :: "string \<Rightarrow> string" where
  "strip s = rev (dropWhile isspace (rev (dropWhile isspace s)))"

text \<open>\<^verbatim>\<open>text.split()\<close>: the maximal runs of non-whitespace characters, in order. The second
  argument is the word being read.\<close>

fun split_from :: "string \<Rightarrow> string \<Rightarrow> string list" where
  "split_from w [] = (if w = [] then [] else [w])"
| "split_from w (c # cs) =
     (if isspace c then (if w = [] then split_from [] cs else w # split_from [] cs)
      else split_from (w @ [c]) cs)"

definition split :: "string \<Rightarrow> string list" where
  "split s = split_from [] s"

text \<open>\<^verbatim>\<open>sep.join(parts)\<close>.\<close>

fun join :: "string \<Rightarrow> string list \<Rightarrow> string" where
  "join sep [] = []"
| "join sep [x] = x"
| "join sep (x # y # ys) = x @ sep @ join sep (y # ys)"

text \<open>\<^verbatim>\<open>xs[a:b]\<close> for integers of either sign: a negative bound counts from the end, and both
  bounds are clipped to the list.\<close>

definition py_slice :: "'a list \<Rightarrow> int \<Rightarrow> int \<Rightarrow> 'a list" where
  "py_slice xs a b =
     (let n = int (length xs);
          a' = (if a < 0 then max (a + n) 0 else min a n);
          b' = (if b < 0 then max (b + n) 0 else min b n)
      in take (nat (b' - a')) (drop (nat a') xs))"

text \<open>\<^verbatim>\<open>s.lower()\<close> on code points below 256: the letters A to Z and the capital letters
  192 to 222 (without the multiplication sign 215) move up by 32.\<close>

definition lower_char :: "char \<Rightarrow> char" where
  "lower_char c =
     (let n = (of_char c :: nat)
      in if (65 \<le> n \<and> n \<le> 90) \<or> (192 \<le> n \<and> n \<le> 222 \<and> n \<noteq> 215)
         then char_of (n + 32) else c)"

definition lower :: "string \<Rightarrow> string" where
  "lower s = map lower_char s"

definition endswith :: "string \<Rightarrow> string \<Rightarrow> bool" where
  "endswith s suffix =
     (length suffix \<le> length s \<and> drop (length s - length suffix) s = suffix)"

text \<open>\<^verbatim>\<open>str(n)\<close> for an integer.\<close>

fun digits :: "nat \<Rightarrow> string" where
  "digits n = (if n < 10 then [''0123456789'' ! n] else digits (n div 10) @ [''0123456789'' ! (n mod 10)])"

definition str_int :: "int \<Rightarrow> string" where
  "str_int i = (if i < 0 then CHR ''-'' # digits (nat (- i)) else digits (nat i))"

text \<open>The values held in the dictionaries of the program, the dictionaries themselves as
  association lists in insertion order, and the exceptions that the modelled code can meet.\<close>

datatype pyval = PyStr string | PyInt int | PyFloat real

type_synonym pydict = "(string \<times> pyval) list"

datatype py_error = KeyError string | IndexError | TypeError | AttributeError | LibraryError

section \<open>pdf\_processing.chunk\_text\<close>

text \<open>
  The \<^verbatim>\<open>while start < len(words)\<close> loop of \<^verbatim>\<open>chunk_text\<close>, with the loop variables \<open>start\<close> and
  \<open>chunks\<close> as arguments. The loop may run forever, so the result is an option: \<open>None\<close> is
  a loop that never leaves.
\<close>

partial_function (option) chunk_loop ::
  "string list \<Rightarrow> int \<Rightarrow> int \<Rightarrow> int \<Rightarrow> string list \<Rightarrow> string list option" where
  "chunk_loop words chunk_size overlap start chunks =
     (if start < int (length words) then
        (let end = min (start + chunk_size) (int (length words));
             chunk_words = py_slice words start end;
             chunk = join '' '' chunk_words;
             chunks' = (if strip chunk \<noteq> [] then chunks @ [strip chunk] else chunks)
         in if end \<ge> int (length words) then Some chunks'
            else (let start' = end - overlap;
                      start'' = (if start' \<le> 0 then end else start')
                  in chunk_loop words chunk_size overlap start'' chunks'))
      else Some chunks)"

declare chunk_loop.simps [code]

definition chunk_text :: "string \<Rightarrow> int \<Rightarrow> int \<Rightarrow> string list option" where
  "chunk_text text chunk_size overlap =
     (if text = [] then Some []
      else (let words = split text
            in if int (length words) \<le> chunk_size then Some [text]
               else chunk_loop words chunk_size overlap 0 []))"

text \<open>A word as \<open>split\<close> returns it: not empty, and free of whitespace.\<close>

definition word_ok :: "string \<Rightarrow> bool" where
  "word_ok w = (w \<noteq> [] \<and> (\<forall>c\<in>set w. \<not> isspace c))"

section \<open>pdf\_processing: extraction\<close>

text \<open>
  What PyMuPDF gives for one page: the result of \<^verbatim>\<open>get_text("text")\<close>, of
  \<^verbatim>\<open>get_text("dict")\<close> (blocks, lines and spans, every key possibly absent) and of
  \<^verbatim>\<open>get_text("blocks")\<close> (tuples, here lists of values).
\<close>

datatype span = Span "string option"
datatype line = Line "span list option"
datatype block = Block "line list option"
datatype text_dict = TextDict "block list option"

record page =
  text_plain :: string
  text_layout :: text_dict
  text_blocks :: "pyval list list"

text \<open>
  An uploaded file: its name, its \<^verbatim>\<open>size\<close> attribute when it has one, and the bytes that
  \<^verbatim>\<open>read()\<close> and \<^verbatim>\<open>getvalue()\<close> return.
\<close>

record uploaded_file =
  name :: string
  size_attr :: "nat option"
  content :: string

text \<open>
  The libraries the core calls. \<open>fitz_open\<close> is \<^verbatim>\<open>fitz.open(stream=..., filetype="pdf")\<close>
  followed by the reading of the pages, and fails on bytes that are no PDF. \<open>re_subs\<close> is the
  sequence of \<^verbatim>\<open>re.sub\<close> calls of \<^verbatim>\<open>clean_text\<close> (lines 132 to 150). \<open>load_model\<close> and
  \<open>encode\<close> are the SentenceTransformer: a matrix is a list of rows, floats are reals.
  \<open>float32\<close> is the rounding of one number to single precision, \<open>search\<close> is \<^verbatim>\<open>IndexFlatL2.search\<close> on the
  stored rows, a query matrix and \<open>k\<close>, returning distances and row numbers, one row per
  query. \<open>repr_float\<close> prints a float inside an f-string.
\<close>

record libs =
  fitz_open :: "string \<Rightarrow> py_error + page list"
  re_subs :: "string \<Rightarrow> string"
  load_model :: "string \<Rightarrow> py_error + unit"
  encode :: "string list \<Rightarrow> py_error + real list list"
  float32 :: "real \<Rightarrow> real"
  search :: "real list list \<Rightarrow> real list list \<Rightarrow> int \<Rightarrow> py_error + (real list list \<times> int list list)"
  repr_float :: "real \<Rightarrow> string"

text \<open>\<^verbatim>\<open>m.astype('float32')\<close>: every entry is rounded, the shape stays.\<close>

definition astype_float32 :: "libs \<Rightarrow> real list list \<Rightarrow> real list list" where
  "astype_float32 L m = map (map (float32 L)) m"

text \<open>\<^verbatim>\<open>extract_text_from_dict\<close>: the stripped text of every line that is not blank, one per
  line of the result.\<close>

fun span_text :: "span \<Rightarrow> string" where
  "span_text (Span t) = (case t of None \<Rightarrow> [] | Some s \<Rightarrow> s)"

fun line_text :: "line \<Rightarrow> string" where
  "line_text (Line spans) = concat (map span_text (case spans of None \<Rightarrow> [] | Some ss \<Rightarrow> ss))"

fun block_parts :: "block \<Rightarrow> string list" where
  "block_parts (Block None) = []"
| "block_parts (Block (Some lines)) =
     map strip (filter (\<lambda>t. strip t \<noteq> []) (map line_text lines))"

fun extract_text_from_dict :: "text_dict \<Rightarrow> string" where
  "extract_text_from_dict (TextDict blocks) =
     join [CHR 0x0A] (concat (map block_parts (case blocks of None \<Rightarrow> [] | Some bs \<Rightarrow> bs)))"

text \<open>\<^verbatim>\<open>[block[4] for block in blocks if len(block) > 4 and block[4].strip()]\<close>; an element 4 that
  is no string has no \<^verbatim>\<open>strip\<close>.\<close>

fun blocks_texts :: "pyval list list \<Rightarrow> py_error + string list" where
  "blocks_texts [] = Inr []"
| "blocks_texts (b # bs) =
     (if length b > 4 then
        (case b ! 4 of
           PyStr t \<Rightarrow> (case blocks_texts bs of Inl e \<Rightarrow> Inl e
                     | Inr ts \<Rightarrow> Inr (if strip t \<noteq> [] then t # ts else ts))
         | _ \<Rightarrow> Inl AttributeError)
      else blocks_texts bs)"

definition clean_text :: "libs \<Rightarrow> string \<Rightarrow> string" where
  "clean_text L text = (if text = [] then [] else strip (re_subs L text))"

text \<open>The three extraction methods on one page, in the order of the source.\<close>

definition page_text :: "page \<Rightarrow> py_error + string" where
  "page_text p =
     (let t = text_plain p;
          t = (if strip t = [] then extract_text_from_dict (text_layout p) else t)
      in if strip t = [] then
           (case blocks_texts (text_blocks p) of Inl e \<Rightarrow> Inl e
            | Inr ts \<Rightarrow> Inr (join [CHR 0x0A] ts))
         else Inr t)"

text \<open>The loop over the pages, with \<open>text_content\<close> as accumulator.\<close>

fun pages_loop :: "libs \<Rightarrow> page list \<Rightarrow> string list \<Rightarrow> py_error + string list" where
  "pages_loop L [] text_content = Inr text_content"
| "pages_loop L (p # ps) text_content =
     (case page_text p of Inl e \<Rightarrow> Inl e
      | Inr text \<Rightarrow>
          if strip text \<noteq> [] then
            (let cleaned_text = clean_text L text
             in if cleaned_text \<noteq> [] then pages_loop L ps (text_content @ [cleaned_text])
                else pages_loop L ps text_content)
          else pages_loop L ps text_content)"

definition no_text_message :: string where
  "no_text_message = ''No text content could be extracted from this PDF. This might be a scanned document or image-based PDF that requires OCR processing.''"

text \<open>\<^verbatim>\<open>extract_text_from_pdf\<close>: every exception inside ends in the empty string.\<close>

definition extract_text_from_pdf :: "libs \<Rightarrow> uploaded_file \<Rightarrow> string" where
  "extract_text_from_pdf L pdf_file =
     (let pdf_bytes = content pdf_file
      in if length pdf_bytes = 0 then []
         else (case fitz_open L pdf_bytes of Inl e \<Rightarrow> []
               | Inr pages \<Rightarrow>
                   (case pages_loop L pages [] of Inl e \<Rightarrow> []
                    | Inr text_content \<Rightarrow>
                        (let full_text = join [CHR 0x0A, CHR 0x0A] text_content
                         in if length (strip full_text) = 0 then no_text_message
                            else full_text))))"

section \<open>pdf\_processing.process\_uploaded\_pdfs\<close>

text \<open>
  The body of the loop over the files, for the file at position \<open>file_idx\<close>: the chunks it
  appends to \<open>all_chunks\<close> and the entry it appends to \<open>processing_results\<close>. \<open>None\<close> is a
  call of \<open>chunk_text\<close> that does not return.
\<close>

definition chunk_data :: "string \<Rightarrow> nat \<Rightarrow> string \<Rightarrow> nat \<Rightarrow> string \<Rightarrow> pydict" where
  "chunk_data filename file_idx text chunk_idx chunk =
     [(''filename'', PyStr filename),
      (''chunk_index'', PyInt (int chunk_idx)),
      (''text'', PyStr chunk),
      (''file_index'', PyInt (int file_idx)),
      (''original_text_length'', PyInt (int (length text)))]"

text \<open>Line 232: the \<^verbatim>\<open>size\<close> attribute when the file object has one, else the number of its
  bytes.\<close>

definition file_size :: "uploaded_file \<Rightarrow> nat" where
  "file_size uploaded_file =
     (case size_attr uploaded_file of Some n \<Rightarrow> n | None \<Rightarrow> length (content uploaded_file))"

definition process_file :: "libs \<Rightarrow> nat \<Rightarrow> uploaded_file \<Rightarrow> (pydict list \<times> pydict) option" where
  "process_file L file_idx uploaded_file =
     (if \<not> endswith (lower (name uploaded_file)) ''.pdf'' then
        Some ([], [(''filename'', PyStr (name uploaded_file)), (''status'', PyStr ''skipped''),
                   (''reason'', PyStr ''Not a PDF file'')])
      else
        (let size = file_size uploaded_file
         in if size = 0 then
              Some ([], [(''filename'', PyStr (name uploaded_file)), (''status'', PyStr ''failed''),
                         (''reason'', PyStr ''Empty file'')])
            else
              (let text = extract_text_from_pdf L uploaded_file
               in if text = [] \<or> length (strip text) = 0 then
                    Some ([], [(''filename'', PyStr (name uploaded_file)), (''status'', PyStr ''failed''),
                               (''reason'', PyStr ''No text content found'')])
                  else
                    (case chunk_text text 500 100 of None \<Rightarrow> None
                     | Some chunks \<Rightarrow>
                         if chunks = [] then
                           Some ([], [(''filename'', PyStr (name uploaded_file)),
                                      (''status'', PyStr ''failed''),
                                      (''reason'', PyStr ''Could not create text chunks'')])
                         else
                           Some (map (\<lambda>(chunk_idx, chunk).
                                        chunk_data (name uploaded_file) file_idx text chunk_idx chunk)
                                   (enumerate 0 chunks),
                                 [(''filename'', PyStr (name uploaded_file)),
                                  (''status'', PyStr ''success''),
                                  (''chunks_created'', PyInt (int (length chunks))),
                                  (''text_length'', PyInt (int (length text)))])))))"

text \<open>The loop itself, with \<open>all_chunks\<close> and \<open>processing_results\<close> as accumulators.\<close>

fun process_files ::
  "libs \<Rightarrow> nat \<Rightarrow> uploaded_file list \<Rightarrow> pydict list \<Rightarrow> pydict list \<Rightarrow> (pydict list \<times> pydict list) option" where
  "process_files L file_idx [] all_chunks processing_results = Some (all_chunks, processing_results)"
| "process_files L file_idx (f # fs) all_chunks processing_results =
     (case process_file L file_idx f of None \<Rightarrow> None
      | Some (file_chunks, result) \<Rightarrow>
          process_files L (Suc file_idx) fs (all_chunks @ file_chunks) (processing_results @ [result]))"

text \<open>\<^verbatim>\<open>process_uploaded_pdfs\<close> returns \<open>all_chunks\<close>; \<open>processing_results\<close> is only logged.\<close>

definition process_uploaded_pdfs :: "libs \<Rightarrow> uploaded_file list \<Rightarrow> pydict list option" where
  "process_uploaded_pdfs L uploaded_files =
     map_option fst (process_files L 0 uploaded_files [] [])"

section \<open>embedding\_retrieval.EmbeddingRetriever\<close>

text \<open>
  Chunk dictionaries are objects: the program holds references to them, copies them and
  writes keys into the copies. The store is the list of all dictionaries created so far, a
  reference is a position in it, and a new object goes to the end.
\<close>

type_synonym heap = "pydict list"

definition alloc :: "heap \<Rightarrow> pydict \<Rightarrow> nat \<times> heap" where
  "alloc h d = (length h, h @ [d])"

text \<open>\<^verbatim>\<open>d[k] = v\<close> on the object at \<open>a\<close>.\<close>

definition setitem :: "heap \<Rightarrow> nat \<Rightarrow> string \<Rightarrow> pyval \<Rightarrow> heap" where
  "setitem h a k v = h[a := AList.update k v (h ! a)]"

text \<open>\<^verbatim>\<open>xs[i]\<close> for an integer of either sign.\<close>

definition py_index :: "'a list \<Rightarrow> int \<Rightarrow> py_error + 'a" where
  "py_index xs i =
     (if 0 \<le> i \<and> i < int (length xs) then Inr (xs ! nat i)
      else if i < 0 \<and> - int (length xs) \<le> i then Inr (xs ! nat (int (length xs) + i))
      else Inl IndexError)"

text \<open>\<^verbatim>\<open>faiss.IndexFlatL2(d)\<close> keeps its dimension and the rows added so far, in the order
  in which they were added.\<close>

datatype faiss_index = IndexFlatL2 nat "real list list"

fun index_rows :: "faiss_index \<Rightarrow> real list list" where
  "index_rows (IndexFlatL2 d rows) = rows"


fun faiss_add :: "faiss_index \<Rightarrow> real list list \<Rightarrow> faiss_index" where
  "faiss_add (IndexFlatL2 d rows) m = IndexFlatL2 d (rows @ m)"

record retriever =
  model_name :: string
  index :: "faiss_index option"
  chunks :: "nat list"
  embeddings :: "real list list option"

text \<open>\<^verbatim>\<open>[chunk["text"] for chunk in chunks]\<close>; a text that is no string is refused by the
  tokenizer of the model, inside \<^verbatim>\<open>encode\<close>.\<close>

fun chunk_texts :: "heap \<Rightarrow> nat list \<Rightarrow> py_error + string list" where
  "chunk_texts h [] = Inr []"
| "chunk_texts h (a # as) =
     (case map_of (h ! a) ''text'' of
        None \<Rightarrow> Inl (KeyError ''text'')
      | Some (PyStr t) \<Rightarrow> (case chunk_texts h as of Inl e \<Rightarrow> Inl e | Inr ts \<Rightarrow> Inr (t # ts))
      | Some _ \<Rightarrow> (case chunk_texts h as of Inl (KeyError k) \<Rightarrow> Inl (KeyError k) | _ \<Rightarrow> Inl TypeError))"

text \<open>\<^verbatim>\<open>create_embeddings\<close>: the result or the exception, and the retriever after the call.\<close>

definition create_embeddings ::
  "libs \<Rightarrow> heap \<Rightarrow> retriever \<Rightarrow> nat list \<Rightarrow> (py_error + real list list) \<times> retriever" where
  "create_embeddings L h self cs =
     (if cs = [] then (Inr [], self)
      else (let self = self\<lparr>chunks := cs\<rparr>
            in case chunk_texts h cs of Inl e \<Rightarrow> (Inl e, self)
               | Inr texts \<Rightarrow>
                   (case encode L texts of Inl e \<Rightarrow> (Inl e, self)
                    | Inr embs \<Rightarrow> (Inr embs, self\<lparr>embeddings := Some embs\<rparr>))))"

text \<open>\<^verbatim>\<open>build_faiss_index\<close>; the argument is \<open>None\<close> when the caller gives no matrix. On a
  matrix no statement of the \<^verbatim>\<open>try\<close> block raises.\<close>

definition build_faiss_index :: "libs \<Rightarrow> retriever \<Rightarrow> real list list option \<Rightarrow> retriever" where
  "build_faiss_index L self arg =
     (let embs = (case arg of None \<Rightarrow> embeddings self | Some m \<Rightarrow> Some m)
      in case embs of None \<Rightarrow> self
         | Some m \<Rightarrow>
             (case m of [] \<Rightarrow> self
              | row # _ \<Rightarrow>
                  (let dimension = length row;
                       self = self\<lparr>index := Some (IndexFlatL2 dimension [])\<rparr>
                   in self\<lparr>index := Some (faiss_add (IndexFlatL2 dimension []) (astype_float32 L m))\<rparr>)))"

text \<open>
  The loop of \<^verbatim>\<open>retrieve_relevant_chunks\<close> over \<^verbatim>\<open>enumerate(zip(distances[0], indices[0]))\<close>,
  with the counter \<open>i\<close> and \<open>results\<close> as arguments. It returns the references of the
  results, or the exception, and the store.
\<close>

fun results_loop ::
  "heap \<Rightarrow> nat list \<Rightarrow> nat \<Rightarrow> (real \<times> int) list \<Rightarrow> nat list \<Rightarrow> (py_error + nat list) \<times> heap" where
  "results_loop h cs i [] results = (Inr results, h)"
| "results_loop h cs i ((distance, idx) # rest) results =
     (if idx < int (length cs) then
        (case py_index cs idx of Inl e \<Rightarrow> (Inl e, h)
         | Inr a \<Rightarrow>
             (let (chunk, h) = alloc h (h ! a);
                  h = setitem h chunk ''similarity_score'' (PyFloat distance);
                  h = setitem h chunk ''rank'' (PyInt (int i + 1))
              in results_loop h cs (Suc i) rest (results @ [chunk])))
      else results_loop h cs (Suc i) rest results)"

text \<open>
  \<^verbatim>\<open>retrieve_relevant_chunks\<close>: the references of the results, the store after the call, and
  the arguments of the calls of \<^verbatim>\<open>model.encode\<close> that the call made. Every exception of the
  \<^verbatim>\<open>try\<close> block ends in the empty list.
\<close>

definition retrieve_relevant_chunks ::
  "libs \<Rightarrow> heap \<Rightarrow> retriever \<Rightarrow> string \<Rightarrow> int \<Rightarrow> nat list \<times> heap \<times> string list list" where
  "retrieve_relevant_chunks L h self query top_k =
     (if strip query = [] then ([], h, [])
      else
        (case index self of None \<Rightarrow> ([], h, [])
         | Some ix \<Rightarrow>
             if length (chunks self) = 0 then ([], h, [])
             else
               (case encode L [query] of Inl e \<Rightarrow> ([], h, [[query]])
                | Inr query_embedding \<Rightarrow>
                    (case search L (index_rows ix) (astype_float32 L query_embedding)
                            (min top_k (int (length (chunks self)))) of
                       Inl e \<Rightarrow> ([], h, [[query]])
                     | Inr (distances, indices) \<Rightarrow>
                         (case (distances, indices) of
                            (d0 # _, i0 # _) \<Rightarrow>
                              (case results_loop h (chunks self) 0 (zip d0 i0) [] of
                                 (Inl e, h') \<Rightarrow> ([], h', [[query]])
                               | (Inr results, h') \<Rightarrow> (results, h', [[query]]))
                          | _ \<Rightarrow> ([], h, [[query]]))))))"

text \<open>A caller that sends one query after the other to the same retriever; the store goes
  from one call to the next.\<close>

fun run_queries :: "libs \<Rightarrow> heap \<Rightarrow> retriever \<Rightarrow> (string \<times> int) list \<Rightarrow> heap" where
  "run_queries L h self [] = h"
| "run_queries L h self ((query, top_k) # qs) =
     (case retrieve_relevant_chunks L h self query top_k of
        (results, h', calls) \<Rightarrow> run_queries L h' self qs)"

section \<open>embedding\_retrieval: module functions\<close>

text \<open>The two calls of \<^verbatim>\<open>initialize_retrieval_system\<close> (lines 204 to 208) on a retriever:
  \<^verbatim>\<open>create_embeddings\<close>, then \<^verbatim>\<open>build_faiss_index\<close> on its result.\<close>

definition ingest :: "libs \<Rightarrow> heap \<Rightarrow> retriever \<Rightarrow> nat list \<Rightarrow> (py_error + unit) \<times> retriever" where
  "ingest L h self cs =
     (case create_embeddings L h self cs of
        (Inl e, self) \<Rightarrow> (Inl e, self)
      | (Inr embs, self) \<Rightarrow> (Inr (), build_faiss_index L self (Some embs)))"

definition new_retriever :: "libs \<Rightarrow> string \<Rightarrow> py_error + retriever" where
  "new_retriever L mname =
     (case load_model L mname of Inl e \<Rightarrow> Inl e
      | Inr _ \<Rightarrow> Inr \<lparr>model_name = mname, index = None, chunks = [], embeddings = None\<rparr>)"

definition initialize_retrieval_system :: "libs \<Rightarrow> heap \<Rightarrow> nat list \<Rightarrow> string \<Rightarrow> py_error + retriever" where
  "initialize_retrieval_system L h cs mname =
     (case new_retriever L mname of Inl e \<Rightarrow> Inl e
      | Inr self \<Rightarrow>
          if cs = [] then Inr self
          else (case ingest L h self cs of
                  (Inl e, _) \<Rightarrow> Inl e
                | (Inr _, self) \<Rightarrow> Inr self))"

text \<open>\<^verbatim>\<open>get_chunk_sources\<close>: the entry for one chunk, then the loop. Adding 1 to a string and
  slicing or measuring a number raise \<^verbatim>\<open>TypeError\<close>.\<close>

definition dict_get :: "pydict \<Rightarrow> string \<Rightarrow> pyval \<Rightarrow> pyval" where
  "dict_get d k dflt = (case map_of d k of None \<Rightarrow> dflt | Some v \<Rightarrow> v)"

definition chunk_source :: "libs \<Rightarrow> pydict \<Rightarrow> py_error + pydict" where
  "chunk_source L chunk =
     (let filename = dict_get chunk ''filename'' (PyStr ''Unknown'')
      in case (case dict_get chunk ''chunk_index'' (PyInt 0) of
                 PyInt i \<Rightarrow> Inr (''Section '' @ str_int (i + 1))
               | PyFloat x \<Rightarrow> Inr (''Section '' @ repr_float L (x + 1))
               | PyStr _ \<Rightarrow> Inl TypeError) of
           Inl e \<Rightarrow> Inl e
         | Inr section \<Rightarrow>
             (case dict_get chunk ''text'' (PyStr []) of
                PyStr t \<Rightarrow>
                  Inr [(''filename'', filename),
                       (''section'', PyStr section),
                       (''preview'', PyStr (if length t > 200 then take 200 t @ ''...'' else t))]
              | _ \<Rightarrow> Inl TypeError))"

fun get_chunk_sources :: "libs \<Rightarrow> pydict list \<Rightarrow> py_error + pydict list" where
  "get_chunk_sources L [] = Inr []"
| "get_chunk_sources L (chunk # rest) =
     (case chunk_source L chunk of Inl e \<Rightarrow> Inl e
      | Inr source \<Rightarrow>
          (case get_chunk_sources L rest of Inl e \<Rightarrow> Inl e
           | Inr sources \<Rightarrow> Inr (source # sources)))"

text \<open>A chunk record whose \<^verbatim>\<open>chunk_index\<close> and \<^verbatim>\<open>text\<close>, where present, have the types of the
  data model: an integer and a string.\<close>

definition chunk_typed :: "pydict \<Rightarrow> bool" where
  "chunk_typed c =
     ((case map_of c ''chunk_index'' of None \<Rightarrow> True | Some (PyInt i) \<Rightarrow> True | Some _ \<Rightarrow> False) \<and>
      (case map_of c ''text'' of None \<Rightarrow> True | Some (PyStr t) \<Rightarrow> True | Some _ \<Rightarrow> False))"

section \<open>Example data\<close>

text \<open>
  A small instance of the libraries, for concrete runs. The PDF reader knows two byte
  strings: a document of one page without any text, and a document of one page of text.
  The model embeds a text as the vector of its length. The index search is exhaustive:
  squared distances to all rows, sorted, the first \<open>k\<close> of them, filled up with row \<open>-1\<close>
  when \<open>k\<close> exceeds the number of rows, and refused when \<open>k\<close> is not positive.
\<close>

definition blank_page :: page where
  "blank_page = \<lparr>text_plain = [], text_layout = TextDict (Some []), text_blocks = []\<rparr>"

definition text_page :: page where
  "text_page = \<lparr>text_plain = ''alpha beta'', text_layout = TextDict None, text_blocks = []\<rparr>"

definition l2_sq :: "real list \<Rightarrow> real list \<Rightarrow> real" where
  "l2_sq x y = sum_list (map (\<lambda>(a, b). (a - b) * (a - b)) (zip x y))"

definition flat_l2_search ::
  "real list list \<Rightarrow> real list list \<Rightarrow> int \<Rightarrow> py_error + (real list list \<times> int list list)" where
  "flat_l2_search rows queries k =
     (if k \<le> 0 then Inl LibraryError
      else (let answers =
                  map (\<lambda>q. take (nat k)
                             (sort_key fst (zip (map (l2_sq q) rows) (map int [0..<length rows]))) @
                           replicate (nat k - length rows) (340282346638528859811704183484516925440, - 1))
                    queries
            in Inr (map (map fst) answers, map (map snd) answers)))"

definition example_libs :: libs where
  "example_libs =
     \<lparr>fitz_open = (\<lambda>bytes. if bytes = ''%PDF-scan'' then Inr [blank_page]
                           else if bytes = ''%PDF-text'' then Inr [text_page]
                           else Inl LibraryError),
      re_subs = (\<lambda>t. t),
      load_model = (\<lambda>m. Inr ()),
      encode = (\<lambda>texts. Inr (map (\<lambda>t. [real (length t)]) texts)),
      float32 = (\<lambda>x. x),
      search = flat_l2_search,
      repr_float = (\<lambda>x. ''0.0'')\<rparr>"

text \<open>The same libraries with a model whose \<^verbatim>\<open>encode\<close> raises.\<close>

definition failing_libs :: libs where
  "failing_libs = example_libs\<lparr>encode := (\<lambda>texts. Inl LibraryError)\<rparr>"

text \<open>Three chunk dictionaries in the store, and a retriever that serves the first two.\<close>

definition example_heap :: heap where
  "example_heap =
     [chunk_data ''bio.pdf'' 0 ''cell cycle'' 0 ''cell'',
      chunk_data ''bio.pdf'' 0 ''cell cycle'' 1 ''cycle'',
      chunk_data ''new.pdf'' 0 ''mitochondria'' 0 ''mitochondria'']"

definition example_retriever :: retriever where
  "example_retriever =
     \<lparr>model_name = ''all-MiniLM-L6-v2'',
      index = Some (IndexFlatL2 1 [[4], [5]]),
      chunks = [0, 1],
      embeddings = Some [[4], [5]]\<rparr>"

definition scanned_file :: uploaded_file where
  "scanned_file = \<lparr>name = ''scan.pdf'', size_attr = Some 9, content = ''%PDF-scan''\<rparr>"

definition text_file :: uploaded_file where
  "text_file = \<lparr>name = ''notes.PDF'', size_attr = None, content = ''%PDF-text''\<rparr>"

definition empty_file :: uploaded_file where
  "empty_file = \<lparr>name = ''empty.pdf'', size_attr = Some 0, content = []\<rparr>"

definition other_file :: uploaded_file where
  "other_file = \<lparr>name = ''notes.txt'', size_attr = Some 5, content = ''hello''\<rparr>"


section \<open>Properties of the chunker\<close>

subsection \<open>Words, joining and stripping\<close>

lemma split_from_ok:
  "(\<forall>c\<in>set w. \<not> isspace c) \<Longrightarrow> v \<in> set (split_from w s) \<Longrightarrow> word_ok v"
proof (induction s arbitrary: w)
  case Nil
  then show ?case by (auto simp: word_ok_def split: if_splits)
next
  case (Cons c cs)
  show ?case
  proof (cases "isspace c")
    case True
    with Cons.prems have "v = w \<and> w \<noteq> [] \<or> v \<in> set (split_from [] cs)"
      by (auto split: if_splits)
    then show ?thesis
      using Cons.prems(1) Cons.IH[of "[]"] by (auto simp: word_ok_def)
  next
    case False
    with Cons.prems have "v \<in> set (split_from (w @ [c]) cs)" by simp
    moreover have "\<forall>x\<in>set (w @ [c]). \<not> isspace x" using False Cons.prems(1) by simp
    ultimately show ?thesis using Cons.IH by blast
  qed
qed

lemma split_ok: "\<forall>v\<in>set (split s). word_ok v"
  using split_from_ok[of "[]" _ s] by (simp add: split_def)

lemma ceil_step: "0 < d \<Longrightarrow> (m + d - 1) div d = 1 + (m - 1) div (d::int)"
proof -
  assume "0 < d"
  have "(m + d - 1) div d = ((m - 1) + d) div d" by (simp add: algebra_simps)
  also have "\<dots> = (m - 1) div d + 1" using \<open>0 < d\<close> by (subst div_add_self2) auto
  finally show ?thesis by simp
qed

lemma ceil_div:
  assumes "0 < (d::int)"
  shows "- (- a div d) = (a + d - 1) div d"
proof -
  define q r where "q = a div d" and "r = a mod d"
  have a: "a = q * d + r" and r: "0 \<le> r" "r < d"
    using assms by (auto simp: q_def r_def)
  show ?thesis
  proof (cases "r = 0")
    case True
    have "(a + d - 1) div d = (d - 1 + q * d) div d" using a True by (simp add: algebra_simps)
    also have "\<dots> = (d - 1) div d + q" using assms by simp
    also have "(d - 1) div d = 0" using assms by simp
    finally have "(a + d - 1) div d = q" by simp
    moreover have "- a div d = - q"
      using True assms by (simp add: zdiv_zminus1_eq_if q_def r_def)
    ultimately show ?thesis by simp
  next
    case False
    have "(a + d - 1) div d = (r - 1 + (q + 1) * d) div d" using a by (simp add: algebra_simps)
    also have "\<dots> = (r - 1) div d + (q + 1)" using assms by simp
    also have "(r - 1) div d = 0" using assms r False by simp
    finally have "(a + d - 1) div d = q + 1" by simp
    moreover have "- a div d = - q - 1"
      using False assms by (simp add: zdiv_zminus1_eq_if q_def r_def)
    ultimately show ?thesis by simp
  qed
qed


lemma strip_eq_Nil: "strip s = [] \<longleftrightarrow> (\<forall>c\<in>set s. isspace c)"
proof
  assume "strip s = []"
  then have a: "\<forall>c\<in>set (dropWhile isspace s). isspace c"
    by (simp add: strip_def)
  show "\<forall>c\<in>set s. isspace c"
  proof (rule ccontr)
    assume "\<not> (\<forall>c\<in>set s. isspace c)"
    then have ne: "dropWhile isspace s \<noteq> []" by simp
    then have "\<not> isspace (hd (dropWhile isspace s))" by (rule hd_dropWhile)
    moreover from ne have "hd (dropWhile isspace s) \<in> set (dropWhile isspace s)" by simp
    ultimately show False using a by blast
  qed
next
  assume "\<forall>c\<in>set s. isspace c"
  then show "strip s = []"
    by (auto simp: strip_def dest: set_dropWhileD)
qed

lemma join_hd: "ws \<noteq> [] \<Longrightarrow> set (hd ws) \<subseteq> set (join sep ws)"
  by (induction sep ws rule: join.induct) auto

lemma strip_join_ne:
  assumes "ws \<noteq> []" and "\<forall>v\<in>set ws. word_ok v"
  shows "strip (join sep ws) \<noteq> []"
proof -
  from assms have "word_ok (hd ws)" by simp
  then obtain c where "c \<in> set (hd ws)" "\<not> isspace c"
    by (cases "hd ws") (auto simp: word_ok_def)
  with join_hd[OF assms(1), of sep] show ?thesis
    by (auto simp: strip_eq_Nil)
qed

lemma py_slice_inner:
  assumes "0 \<le> a" "a < b" "b \<le> int (length xs)"
  shows "py_slice xs a b = take (nat (b - a)) (drop (nat a) xs)"
  using assms by (simp add: py_slice_def Let_def min_def)

lemma py_slice_ne:
  assumes "0 \<le> a" "a < b" "b \<le> int (length xs)"
  shows "py_slice xs a b \<noteq> []" and "set (py_slice xs a b) \<subseteq> set xs"
proof -
  show "py_slice xs a b \<noteq> []" using assms by (simp add: py_slice_inner)
  show "set (py_slice xs a b) \<subseteq> set xs"
    using assms by (simp add: py_slice_inner) (meson set_take_subset set_drop_subset subset_trans)
qed

lemma chunk_loop_count:
  assumes good: "\<forall>v\<in>set words. word_ok v"
    and ov: "0 \<le> ov" "ov < S"
  shows "0 \<le> start \<Longrightarrow> start + ov < int (length words) \<Longrightarrow>
     \<exists>r. chunk_loop words S ov start acc = Some r \<and>
       int (length r) = int (length acc) + (int (length words) - start - ov + (S - ov) - 1) div (S - ov)"
proof (induction "nat (int (length words) - start)" arbitrary: start acc rule: less_induct)
  case less
  let ?W = "int (length words)"
  let ?end = "min (start + S) ?W"
  let ?c = "strip (join '' '' (py_slice words start ?end))"
  have lt: "start < ?W" using less.prems ov by simp
  have sl: "0 \<le> start" "start < ?end" "?end \<le> ?W" using less.prems ov by auto
  have ne: "?c \<noteq> []"
    using py_slice_ne[OF sl] good by (intro strip_join_ne) auto
  show ?case
  proof (cases "start + S \<ge> ?W")
    case True
    then have e: "?end = ?W" by simp
    have r: "chunk_loop words S ov start acc = Some (acc @ [?c])"
      using lt ne e by (subst chunk_loop.simps) (simp add: Let_def)
    have "0 < ?W - start - ov" "?W - start - ov \<le> S - ov" using less.prems True by auto
    then have "(?W - start - ov + (S - ov) - 1) div (S - ov) = 1"
      using ov ceil_step[of "S - ov" "?W - start - ov"]
        div_pos_pos_trivial[of "?W - start - ov - 1" "S - ov"] by simp
    with r show ?thesis by simp
  next
    case False
    then have e: "?end = start + S" by simp
    let ?s' = "start + S - ov"
    have r: "chunk_loop words S ov start acc = chunk_loop words S ov ?s' (acc @ [?c])"
      using lt ne e False less.prems ov by (subst chunk_loop.simps) (simp add: Let_def)
    have m: "nat (?W - ?s') < nat (?W - start)" using ov lt by simp
    have "\<exists>r. chunk_loop words S ov ?s' (acc @ [?c]) = Some r \<and>
       int (length r) = int (length (acc @ [?c])) + (?W - ?s' - ov + (S - ov) - 1) div (S - ov)"
      using less.prems ov False by (intro less.hyps[OF m]) auto
    moreover have "(?W - start - ov + (S - ov) - 1) div (S - ov)
        = 1 + (?W - ?s' - ov + (S - ov) - 1) div (S - ov)"
      using ov ceil_step[of "S - ov" "?W - start - ov"] by (simp add: algebra_simps)
    ultimately show ?thesis using r by auto
  qed
qed

lemma split5: "split ''a b c d e'' = [''a'', ''b'', ''c'', ''d'', ''e'']"
  by (simp add: split_def isspace_def)

text \<open>
  Claim C5, amended. For a non-empty text of \<open>W\<close> words and an overlap \<open>O\<close> that is not
  negative and below the chunk size \<open>S\<close>, \<open>chunk_text\<close> returns: one chunk, the text itself,
  when \<open>W \<le> S\<close>; and \<open>ceil ((W - O) / (S - O))\<close> chunks when \<open>W > S\<close>.
\<close>

theorem chunk_text_count:
  assumes "text \<noteq> []" and "0 \<le> overlap" and "overlap < chunk_size"
  shows "\<exists>chunks. chunk_text text chunk_size overlap = Some chunks \<and>
     (if int (length (split text)) \<le> chunk_size then chunks = [text]
      else int (length chunks) =
        \<lceil>real_of_int (int (length (split text)) - overlap) / real_of_int (chunk_size - overlap)\<rceil>)"
proof (cases "int (length (split text)) \<le> chunk_size")
  case True
  then show ?thesis using assms by (simp add: chunk_text_def)
next
  case False
  let ?W = "int (length (split text))"
  have "0 + overlap < ?W" using False assms by simp
  from chunk_loop_count[OF split_ok assms(2,3) order.refl this, of "[]"]
  obtain r where r: "chunk_loop (split text) chunk_size overlap 0 [] = Some r"
    "int (length r) = (?W - overlap + (chunk_size - overlap) - 1) div (chunk_size - overlap)"
    by auto
  have "\<lceil>real_of_int (?W - overlap) / real_of_int (chunk_size - overlap)\<rceil>
      = - (- (?W - overlap) div (chunk_size - overlap))"
    by (rule ceiling_divide_eq_div)
  also have "\<dots> = (?W - overlap + (chunk_size - overlap) - 1) div (chunk_size - overlap)"
    using assms ceil_div[of "chunk_size - overlap" "?W - overlap"] by simp
  finally show ?thesis using r False assms by (simp add: chunk_text_def Let_def)
qed


theorem chunk_text_count_witness:
  "\<exists>chunks. chunk_text ''a b c d e'' 2 1 = Some chunks \<and> int (length chunks) = 4"
  using chunk_text_count[of "''a b c d e''" 1 2] by (simp add: split5)

text \<open>
  Claim C5, as stated, at a concrete input: five words, chunk size 2 and overlap -10, which
  is below the chunk size. The first window ends at 2 and the next start is 12, beyond the
  last word, so the loop ends with one chunk, while \<open>ceil ((W - O) / (S - O))\<close> is 2.
\<close>

theorem chunk_text_negative_overlap:
  "chunk_text ''a b c d e'' 2 (- 10) = Some [''a b''] \<and>
   int (length (split ''a b c d e'')) > 2 \<and>
   \<lceil>real_of_int (int (length (split ''a b c d e'')) - (- 10)) / real_of_int (2 - (- 10))\<rceil> = 2"
proof -
  have "chunk_loop [''a'', ''b'', ''c'', ''d'', ''e''] 2 (- 10) 12 [''a b''] = Some [''a b'']"
    by (subst chunk_loop.simps) simp
  then have "chunk_text ''a b c d e'' 2 (- 10) = Some [''a b'']"
    by (simp add: chunk_text_def split5 chunk_loop.simps[of _ _ _ 0] Let_def py_slice_def
        strip_def isspace_def)
  moreover have "\<lceil>(15::real) / 12\<rceil> = 2" by (simp add: ceiling_eq_iff)
  ultimately show ?thesis by (simp add: split5)
qed

subsection \<open>An overlap that is not below the chunk size\<close>

lemma chunk_loop_stuck:
  assumes "chunk_loop words S ov start acc = Some r"
  shows "\<not> (0 < start \<and> start + S < int (length words) \<and> ov = S \<and> 0 \<le> S)"
proof (rule chunk_loop.raw_induct
    [where P = "\<lambda>words S ov start acc r.
                  \<not> (0 < start \<and> start + S < int (length words) \<and> ov = S \<and> 0 \<le> S)",
     OF _ assms])
  fix f :: "string list \<Rightarrow> int \<Rightarrow> int \<Rightarrow> int \<Rightarrow> string list \<Rightarrow> string list option"
  fix words S ov start acc r
  assume IH: "\<And>w S ov start acc y. f w S ov start acc = Some y \<Longrightarrow>
                \<not> (0 < start \<and> start + S < int (length w) \<and> ov = S \<and> 0 \<le> S)"
  assume body: "(if start < int (length words) then
        (let end = min (start + S) (int (length words));
             chunk_words = py_slice words start end;
             chunk = join '' '' chunk_words;
             acc' = (if strip chunk \<noteq> [] then acc @ [strip chunk] else acc)
         in if end \<ge> int (length words) then Some acc'
            else (let start' = end - ov;
                      start'' = (if start' \<le> 0 then end else start')
                  in f words S ov start'' acc'))
      else Some acc) = Some r"
  show "\<not> (0 < start \<and> start + S < int (length words) \<and> ov = S \<and> 0 \<le> S)"
  proof
    assume st: "0 < start \<and> start + S < int (length words) \<and> ov = S \<and> 0 \<le> S"
    let ?c = "join '' '' (py_slice words start (start + S))"
    let ?acc' = "if strip ?c \<noteq> [] then acc @ [strip ?c] else acc"
    from st body have "f words S ov start ?acc' = Some r"
      by (simp add: Let_def min_def split: if_splits)
    from IH[OF this] st show False by simp
  qed
qed

text \<open>
  Claim C4. With \<open>chunk_size = 2\<close> and \<open>overlap = 2\<close> on a text of five words, the loop of
  \<open>chunk_text\<close> reaches \<open>start = 2\<close> and stays there: the guard \<open>start \<le> 0\<close> only catches
  the first window, so the call never returns.
\<close>

theorem chunk_text_overlap_eq_size_diverges:
  "chunk_text ''a b c d e'' 2 2 = None"
proof -
  have "chunk_loop [''a'', ''b'', ''c'', ''d'', ''e''] 2 2 2 cs = None" for cs
    using chunk_loop_stuck[of "[''a'', ''b'', ''c'', ''d'', ''e'']" 2 2 2 cs]
    by (cases "chunk_loop [''a'', ''b'', ''c'', ''d'', ''e''] 2 2 2 cs") auto
  then show ?thesis
    by (simp add: chunk_text_def split5 chunk_loop.simps[of _ _ _ 0] Let_def)
qed

section \<open>Properties of the source list\<close>

lemma str_int_1: "str_int 1 = ''1''"
  by (simp add: str_int_def)

lemma chunk_source_typed:
  assumes "chunk_typed c"
  shows "\<exists>s. chunk_source L c = Inr s \<and>
     map_of s ''filename'' = Some (dict_get c ''filename'' (PyStr ''Unknown'')) \<and>
     (map_of c ''chunk_index'' = None \<longrightarrow> map_of s ''section'' = Some (PyStr ''Section 1'')) \<and>
     (\<forall>n. map_of c ''chunk_index'' = Some (PyInt n) \<longrightarrow>
          map_of s ''section'' = Some (PyStr (''Section '' @ str_int (n + 1)))) \<and>
     (map_of c ''text'' = None \<longrightarrow> map_of s ''preview'' = Some (PyStr [])) \<and>
     (\<forall>t. map_of c ''text'' = Some (PyStr t) \<longrightarrow>
          map_of s ''preview'' = Some (PyStr (if length t \<le> 200 then t else take 200 t @ ''...'')))"
  using assms
  by (auto simp: chunk_typed_def chunk_source_def dict_get_def str_int_1 Let_def
      split: option.splits pyval.splits)

lemma get_chunk_sources_all2:
  "\<forall>c\<in>set cs. chunk_typed c \<Longrightarrow>
   \<exists>ss. get_chunk_sources L cs = Inr ss \<and> list_all2 (\<lambda>c s. chunk_source L c = Inr s) cs ss"
proof (induction cs)
  case Nil
  then show ?case by simp
next
  case (Cons c cs)
  then obtain ss where "get_chunk_sources L cs = Inr ss"
    "list_all2 (\<lambda>c s. chunk_source L c = Inr s) cs ss" by auto
  moreover obtain s where "chunk_source L c = Inr s"
    using chunk_source_typed[of c L] Cons.prems by auto
  ultimately show ?case by simp
qed

text \<open>
  Claim C10. For every list of chunk records (where \<^verbatim>\<open>chunk_index\<close> and \<^verbatim>\<open>text\<close>, if present,
  are an integer and a string), \<open>get_chunk_sources\<close> raises nothing and returns one entry per
  record, in order: the filename or \<^verbatim>\<open>"Unknown"\<close>; \<^verbatim>\<open>"Section 1"\<close> when the index is missing and
  \<^verbatim>\<open>"Section n+1"\<close> otherwise; as preview the empty string when the text is missing, the whole
  of the text when it has at most 200 characters, and its first 200 characters followed by
  \<^verbatim>\<open>"..."\<close> when it is longer.
\<close>

theorem get_chunk_sources_defaults:
  assumes "\<forall>c\<in>set cs. chunk_typed c"
  shows "\<exists>sources. get_chunk_sources L cs = Inr sources \<and> length sources = length cs \<and>
     (\<forall>i<length cs.
        map_of (sources ! i) ''filename'' = Some (dict_get (cs ! i) ''filename'' (PyStr ''Unknown'')) \<and>
        (map_of (cs ! i) ''chunk_index'' = None \<longrightarrow>
           map_of (sources ! i) ''section'' = Some (PyStr ''Section 1'')) \<and>
        (\<forall>n. map_of (cs ! i) ''chunk_index'' = Some (PyInt n) \<longrightarrow>
           map_of (sources ! i) ''section'' = Some (PyStr (''Section '' @ str_int (n + 1)))) \<and>
        (map_of (cs ! i) ''text'' = None \<longrightarrow> map_of (sources ! i) ''preview'' = Some (PyStr [])) \<and>
        (\<forall>t. map_of (cs ! i) ''text'' = Some (PyStr t) \<longrightarrow>
           map_of (sources ! i) ''preview'' =
             Some (PyStr (if length t \<le> 200 then t else take 200 t @ ''...''))))"
proof -
  from get_chunk_sources_all2[OF assms, of L] obtain ss where
    r: "get_chunk_sources L cs = Inr ss" and
    a: "list_all2 (\<lambda>c s. chunk_source L c = Inr s) cs ss" by blast
  have len: "length ss = length cs" using a by (simp add: list_all2_lengthD)
  have src: "chunk_source L (cs ! i) = Inr (ss ! i)" if "i < length cs" for i
    using list_all2_nthD[OF a that] by simp
  have typed: "chunk_typed (cs ! i)" if "i < length cs" for i using assms that by simp
  show ?thesis
  proof (intro exI[of _ ss] conjI allI impI)
    show "get_chunk_sources L cs = Inr ss" by (rule r)
    show "length ss = length cs" by (rule len)
  next
    fix i assume i: "i < length cs"
    show "map_of (ss ! i) ''filename'' = Some (dict_get (cs ! i) ''filename'' (PyStr ''Unknown''))"
      using chunk_source_typed[OF typed[OF i], of L] src[OF i] by auto
  next
    fix i assume i: "i < length cs" and "map_of (cs ! i) ''chunk_index'' = None"
    then show "map_of (ss ! i) ''section'' = Some (PyStr ''Section 1'')"
      using chunk_source_typed[OF typed[OF i], of L] src[OF i] by auto
  next
    fix i n assume i: "i < length cs" and "map_of (cs ! i) ''chunk_index'' = Some (PyInt n)"
    then show "map_of (ss ! i) ''section'' = Some (PyStr (''Section '' @ str_int (n + 1)))"
      using chunk_source_typed[OF typed[OF i], of L] src[OF i] by auto
  next
    fix i assume i: "i < length cs" and "map_of (cs ! i) ''text'' = None"
    then show "map_of (ss ! i) ''preview'' = Some (PyStr [])"
      using chunk_source_typed[OF typed[OF i], of L] src[OF i] by auto
  next
    fix i t assume i: "i < length cs" and "map_of (cs ! i) ''text'' = Some (PyStr t)"
    then show "map_of (ss ! i) ''preview'' =
             Some (PyStr (if length t \<le> 200 then t else take 200 t @ ''...''))"
      using chunk_source_typed[OF typed[OF i], of L] src[OF i] by auto
  qed
qed

theorem get_chunk_sources_defaults_witness:
  "chunk_typed [] \<and> chunk_typed [(''chunk_index'', PyInt 41), (''text'', PyStr ''abc'')] \<and>
   (\<exists>sources.
      get_chunk_sources example_libs [[], [(''chunk_index'', PyInt 41), (''text'', PyStr ''abc'')]]
        = Inr sources \<and>
      length sources = 2 \<and>
      map_of (sources ! 0) ''filename'' = Some (PyStr ''Unknown'') \<and>
      map_of (sources ! 0) ''section'' = Some (PyStr ''Section 1'') \<and>
      map_of (sources ! 0) ''preview'' = Some (PyStr []) \<and>
      map_of (sources ! 1) ''preview'' = Some (PyStr ''abc''))"
proof -
  let ?cs = "[[], [(''chunk_index'', PyInt 41), (''text'', PyStr ''abc'')]] :: pydict list"
  have h: "\<forall>c\<in>set ?cs. chunk_typed c" by (simp add: chunk_typed_def)
  from get_chunk_sources_defaults[OF h, of example_libs] obtain sources where
    r: "get_chunk_sources example_libs ?cs = Inr sources" "length sources = length ?cs"
    and p: "\<forall>i<length ?cs.
        map_of (sources ! i) ''filename'' = Some (dict_get (?cs ! i) ''filename'' (PyStr ''Unknown'')) \<and>
        (map_of (?cs ! i) ''chunk_index'' = None \<longrightarrow>
           map_of (sources ! i) ''section'' = Some (PyStr ''Section 1'')) \<and>
        (\<forall>n. map_of (?cs ! i) ''chunk_index'' = Some (PyInt n) \<longrightarrow>
           map_of (sources ! i) ''section'' = Some (PyStr (''Section '' @ str_int (n + 1)))) \<and>
        (map_of (?cs ! i) ''text'' = None \<longrightarrow> map_of (sources ! i) ''preview'' = Some (PyStr [])) \<and>
        (\<forall>t. map_of (?cs ! i) ''text'' = Some (PyStr t) \<longrightarrow>
           map_of (sources ! i) ''preview'' =
             Some (PyStr (if length t \<le> 200 then t else take 200 t @ ''...'')))"
    by blast
  from p[rule_format, of 0] p[rule_format, of 1] r h show ?thesis
    by (simp add: dict_get_def)
qed

section \<open>Properties of the retriever\<close>

subsection \<open>Queries\<close>

text \<open>
  Claim C8. A query that is empty or all whitespace gives the empty list, leaves the store
  as it is and makes no call of the embedding model, whatever the retriever and \<open>top_k\<close>;
  so does every query on a retriever without index or without chunks. The result of
  \<open>retrieve_relevant_chunks\<close> has no exception: every error inside ends in the empty list.
\<close>

theorem retrieve_blank_or_empty:
  assumes "strip query = [] \<or> index self = None \<or> chunks self = []"
  shows "retrieve_relevant_chunks L h self query top_k = ([], h, [])"
  using assms by (auto simp: retrieve_relevant_chunks_def split: option.splits)

theorem retrieve_blank_or_empty_witness:
  "strip ''  '' = [] \<and>
   retrieve_relevant_chunks failing_libs example_heap example_retriever ''  '' 3
     = ([], example_heap, [])"
  using retrieve_blank_or_empty[of "''  ''" example_retriever failing_libs example_heap 3]
  by (simp add: strip_def isspace_def)

lemma results_loop_frame:
  "results_loop h cs i ps res = (out, h') \<Longrightarrow>
     length h \<le> length h' \<and> take (length h) h' = h"
proof (induction ps arbitrary: h i res)
  case Nil
  then show ?case by simp
next
  case (Cons p ps)
  obtain d idx where p: "p = (d, idx)" by (cases p)
  show ?case
  proof (cases "idx < int (length cs)")
    case False
    with Cons p show ?thesis by simp
  next
    case True
    show ?thesis
    proof (cases "py_index cs idx")
      case (Inl e)
      with Cons.prems p True show ?thesis by simp
    next
      case (Inr a)
      let ?h3 = "h @ [AList.update ''rank'' (PyInt (int i + 1))
                       (AList.update ''similarity_score'' (PyFloat d) (h ! a))]"
      from Cons.prems p True Inr
      have "results_loop ?h3 cs (Suc i) ps (res @ [length h]) = (out, h')"
        by (simp add: alloc_def setitem_def)
      from Cons.IH[OF this] have "length ?h3 \<le> length h'" "take (length ?h3) h' = ?h3" by auto
      then have "length h \<le> length h'" "take (length h) (take (length ?h3) h') = h" by auto
      then show ?thesis by (simp add: min_def)
    qed
  qed
qed

lemma retrieve_frame:
  assumes "retrieve_relevant_chunks L h self query top_k = (results, h', calls)"
  shows "length h \<le> length h' \<and> take (length h) h' = h"
  using assms results_loop_frame
  by (auto simp: retrieve_relevant_chunks_def
      split: if_splits option.splits sum.splits prod.splits list.splits)


lemma results_loop_fresh:
  "results_loop h cs i ps res = (Inr out, h') \<Longrightarrow> a \<in> set out \<Longrightarrow>
     a \<in> set res \<or> (length h \<le> a \<and> a < length h')"
proof (induction ps arbitrary: h i res)
  case Nil
  then show ?case by simp
next
  case (Cons p ps)
  obtain d idx where p: "p = (d, idx)" by (cases p)
  show ?case
  proof (cases "idx < int (length cs)")
    case False
    with Cons p show ?thesis by simp
  next
    case True
    show ?thesis
    proof (cases "py_index cs idx")
      case (Inl e)
      with Cons.prems p True show ?thesis by simp
    next
      case (Inr b)
      let ?h3 = "h @ [AList.update ''rank'' (PyInt (int i + 1))
                       (AList.update ''similarity_score'' (PyFloat d) (h ! b))]"
      from Cons.prems p True Inr
      have r: "results_loop ?h3 cs (Suc i) ps (res @ [length h]) = (Inr out, h')"
        by (simp add: alloc_def setitem_def)
      from results_loop_frame[OF r] have len: "length ?h3 \<le> length h'" by simp
      from Cons.IH[OF r Cons.prems(2)] len show ?thesis by auto
    qed
  qed
qed

lemma retrieve_fresh:
  assumes "retrieve_relevant_chunks L h self query top_k = (results, h', calls)"
    and "a \<in> set results"
  shows "length h \<le> a \<and> a < length h'"
  using assms results_loop_fresh[of _ "chunks self" 0 _ "[]" results h' a]
  by (auto simp: retrieve_relevant_chunks_def
      split: if_splits option.splits sum.splits prod.splits list.splits)

lemma run_queries_frame:
  "length h \<le> length (run_queries L h self qs) \<and>
   take (length h) (run_queries L h self qs) = h"
proof (induction qs arbitrary: h)
  case Nil
  then show ?case by simp
next
  case (Cons q qs)
  obtain query top_k where q: "q = (query, top_k)" by (cases q)
  obtain results h' calls where
    r: "retrieve_relevant_chunks L h self query top_k = (results, h', calls)"
    by (cases "retrieve_relevant_chunks L h self query top_k") auto
  from retrieve_frame[OF r] have f: "length h \<le> length h'" "take (length h) h' = h" by auto
  from Cons.IH[of h'] have g: "length h' \<le> length (run_queries L h' self qs)"
    "take (length h') (run_queries L h' self qs) = h'" by auto
  have "take (length h) (run_queries L h' self qs)
      = take (length h) (take (length h') (run_queries L h' self qs))"
    using f(1) by (simp add: min_def)
  with f g q r show ?case by simp
qed

text \<open>
  Claim C9. The results of a query are new objects, none of them a stored chunk, and after
  any sequence of queries every chunk dictionary that the retriever holds is what it was
  before: the keys \<^verbatim>\<open>similarity_score\<close> and \<^verbatim>\<open>rank\<close> are written into the copies only.
\<close>

theorem queries_keep_stored_chunks:
  assumes "\<forall>a\<in>set (chunks self). a < length h"
  shows "(\<forall>a\<in>set (chunks self). run_queries L h self qs ! a = h ! a) \<and>
         (\<forall>a\<in>set (fst (retrieve_relevant_chunks L h self query top_k)). a \<notin> set (chunks self))"
proof
  show "\<forall>a\<in>set (chunks self). run_queries L h self qs ! a = h ! a"
  proof
    fix a assume "a \<in> set (chunks self)"
    with assms have a: "a < length h" by simp
    from run_queries_frame[of h L self qs]
    have "take (length h) (run_queries L h self qs) ! a = h ! a" by simp
    with a show "run_queries L h self qs ! a = h ! a" by simp
  qed
  show "\<forall>a\<in>set (fst (retrieve_relevant_chunks L h self query top_k)). a \<notin> set (chunks self)"
  proof
    fix a assume a: "a \<in> set (fst (retrieve_relevant_chunks L h self query top_k))"
    obtain results h' calls where
      r: "retrieve_relevant_chunks L h self query top_k = (results, h', calls)"
      by (cases "retrieve_relevant_chunks L h self query top_k") auto
    from retrieve_fresh[OF r] a r have "length h \<le> a" by simp
    with assms show "a \<notin> set (chunks self)" by auto
  qed
qed

theorem queries_keep_stored_chunks_witness:
  "0 < length example_heap \<and> 1 < length example_heap \<and>
   run_queries example_libs example_heap example_retriever [(''abcde'', 2), (''abcd'', 1)] ! 0
     = example_heap ! 0 \<and>
   run_queries example_libs example_heap example_retriever [(''abcde'', 2), (''abcd'', 1)] ! 1
     = example_heap ! 1 \<and>
   3 \<notin> set (chunks example_retriever) \<and>
   fst (retrieve_relevant_chunks example_libs example_heap example_retriever ''abcde'' 2) = [3, 4]"
proof -
  have h: "\<forall>a\<in>set (chunks example_retriever). a < length example_heap"
    by (simp add: example_retriever_def example_heap_def)
  have r: "fst (retrieve_relevant_chunks example_libs example_heap example_retriever ''abcde'' 2) = [3, 4]"
    by (simp add: example_retriever_def retrieve_relevant_chunks_def
      example_libs_def flat_l2_search_def l2_sq_def astype_float32_def strip_def isspace_def
      example_heap_def py_index_def alloc_def setitem_def)
  from queries_keep_stored_chunks[OF h, of example_libs "[(''abcde'', 2), (''abcd'', 1)]" "''abcde''" 2]
  show ?thesis using r by (simp add: example_retriever_def example_heap_def)
qed







subsection \<open>Building the index and ingesting\<close>

text \<open>
  Claim C7, as stated, at a concrete input: building over zero vectors on a retriever that
  has an index does not replace the index, and a search still returns results.
\<close>

theorem build_over_zero_vectors_keeps_index:
  "index (build_faiss_index example_libs example_retriever (Some [])) = Some (IndexFlatL2 1 [[4], [5]]) \<and>
   fst (retrieve_relevant_chunks example_libs example_heap
          (build_faiss_index example_libs example_retriever (Some [])) ''abcde'' 2) = [3, 4]"
  by (simp add: build_faiss_index_def example_retriever_def retrieve_relevant_chunks_def
      example_libs_def flat_l2_search_def l2_sq_def astype_float32_def strip_def isspace_def
      example_heap_def py_index_def alloc_def setitem_def)

text \<open>
  Claim C7, amended. For a matrix of \<open>N \<ge> 1\<close> vectors \<open>build_faiss_index\<close> replaces any
  existing index with one over exactly these \<open>N\<close> vectors, each rounded to single precision,
  row \<open>i\<close> of the index being input vector \<open>i\<close>; the chunk list is not touched. For a matrix
  of zero vectors it leaves the retriever, and with it any existing index, as it is.
\<close>

theorem build_faiss_index_rows:
  "(m \<noteq> [] \<longrightarrow>
      (\<exists>rows. index (build_faiss_index L self (Some m)) = Some (IndexFlatL2 (length (hd m)) rows) \<and>
         length rows = length m \<and> (\<forall>i<length m. rows ! i = map (float32 L) (m ! i)))) \<and>
   chunks (build_faiss_index L self (Some m)) = chunks self \<and>
   build_faiss_index L self (Some []) = self"
  by (cases m) (simp_all add: build_faiss_index_def astype_float32_def nth_Cons')

theorem build_faiss_index_rows_witness:
  "[[7], [8]] \<noteq> ([] :: real list list) \<and>
   index (build_faiss_index example_libs example_retriever (Some [[7], [8]]))
     = Some (IndexFlatL2 1 [[7], [8]])"
proof -
  from build_faiss_index_rows[of "[[7], [8]]" example_libs example_retriever]
  obtain rows where r: "index (build_faiss_index example_libs example_retriever (Some [[7], [8]]))
      = Some (IndexFlatL2 1 rows)" "length rows = 2"
    "\<forall>i<2. rows ! i = map (float32 example_libs) ([[7], [8]] ! i)"
    by auto
  from r(3) have "rows ! 0 = [7]" "rows ! 1 = [8]" by (simp_all add: example_libs_def)
  with r(2) have "rows = [[7], [8]]"
    by (cases rows; cases "tl rows"; cases "tl (tl rows)") auto
  with r(1) show ?thesis by simp
qed

text \<open>
  Claim C1, as stated, at a concrete input: a retriever serves chunks 0 and 1; ingesting
  chunk 2 fails in the model. Afterwards the chunk list is the new one and the index is the
  old one, and a query returns the new chunk with a distance computed from an old row.
\<close>

theorem ingest_failure_swaps_chunks:
  "ingest failing_libs example_heap example_retriever [2]
     = (Inl LibraryError, example_retriever\<lparr>chunks := [2]\<rparr>) \<and>
   chunks example_retriever = [0, 1] \<and>
   index (example_retriever\<lparr>chunks := [2]\<rparr>) = Some (IndexFlatL2 1 [[4], [5]]) \<and>
   (case retrieve_relevant_chunks example_libs example_heap (example_retriever\<lparr>chunks := [2]\<rparr>) ''abcd'' 2 of
      (results, h', calls) \<Rightarrow>
         results = [3] \<and> map_of (h' ! 3) ''text'' = Some (PyStr ''mitochondria'') \<and>
         map_of (h' ! 3) ''similarity_score'' = Some (PyFloat 0))"
  by (simp add: ingest_def create_embeddings_def failing_libs_def example_heap_def chunk_data_def
      example_retriever_def retrieve_relevant_chunks_def
      example_libs_def flat_l2_search_def l2_sq_def astype_float32_def strip_def isspace_def
      py_index_def alloc_def setitem_def)

text \<open>
  Claim C1, amended. If embedding the texts of a non-empty list of new chunks fails (a chunk
  without text, or an exception of the model), the exception reaches the caller and the
  retriever keeps the index and the embedding matrix that it had, while its chunk list is
  already the new list. \<open>initialize_retrieval_system\<close>, which works on a retriever of its
  own, then returns no retriever.
\<close>

theorem ingest_failure_state:
  assumes "cs \<noteq> []"
    and "chunk_texts h cs = Inl e \<or> (\<exists>texts. chunk_texts h cs = Inr texts \<and> encode L texts = Inl e)"
  shows "ingest L h self cs = (Inl e, self\<lparr>chunks := cs\<rparr>) \<and>
         (load_model L mname = Inr () \<longrightarrow> initialize_retrieval_system L h cs mname = Inl e)"
  using assms
  by (auto simp: ingest_def create_embeddings_def initialize_retrieval_system_def new_retriever_def)

theorem ingest_failure_state_witness:
  "[2] \<noteq> ([] :: nat list) \<and>
   chunk_texts example_heap [2] = Inr [''mitochondria''] \<and>
   encode failing_libs [''mitochondria''] = Inl LibraryError \<and>
   ingest failing_libs example_heap example_retriever [2]
     = (Inl LibraryError, example_retriever\<lparr>chunks := [2]\<rparr>) \<and>
   load_model failing_libs ''all-MiniLM-L6-v2'' = Inr () \<and>
   initialize_retrieval_system failing_libs example_heap [2] ''all-MiniLM-L6-v2'' = Inl LibraryError"
proof -
  have t: "chunk_texts example_heap [2] = Inr [''mitochondria'']"
    by (simp add: example_heap_def chunk_data_def)
  have e: "encode failing_libs [''mitochondria''] = Inl LibraryError"
    by (simp add: failing_libs_def)
  have l: "load_model failing_libs ''all-MiniLM-L6-v2'' = Inr ()"
    by (simp add: failing_libs_def example_libs_def)
  from ingest_failure_state[of "[2]" example_heap LibraryError failing_libs example_retriever
      "''all-MiniLM-L6-v2''"] t e l
  show ?thesis by simp
qed

section \<open>Properties of the batch processor\<close>

lemma chunk_text_total:
  assumes "0 \<le> ov" "ov < S"
  shows "\<exists>r. chunk_text t S ov = Some r"
proof (cases "t = [] \<or> int (length (split t)) \<le> S")
  case True
  then show ?thesis by (auto simp: chunk_text_def)
next
  case False
  then have "0 + ov < int (length (split t))" using assms by simp
  from chunk_loop_count[OF split_ok assms order.refl this, of "[]"] False
  show ?thesis by (auto simp: chunk_text_def Let_def)
qed

lemma process_file_some: "\<exists>cs r. process_file L i f = Some (cs, r)"
proof -
  obtain r where "chunk_text (extract_text_from_pdf L f) 500 100 = Some r"
    using chunk_text_total[of 100 500] by auto
  then show ?thesis by (simp add: process_file_def Let_def)
qed

lemma enumerate_eq_Nil: "enumerate n xs = [] \<longleftrightarrow> xs = []"
  by (cases xs) auto

lemma process_file_entry:
  assumes "process_file L i f = Some (cs, r)"
  shows "map_of r ''filename'' = Some (PyStr (name f))"
    and "\<not> endswith (lower (name f)) ''.pdf'' \<Longrightarrow> map_of r ''status'' = Some (PyStr ''skipped'')"
    and "endswith (lower (name f)) ''.pdf'' \<Longrightarrow> file_size f = 0 \<Longrightarrow>
           map_of r ''status'' = Some (PyStr ''failed'') \<and> map_of r ''reason'' = Some (PyStr ''Empty file'')"
    and "map_of r ''status'' = Some (PyStr ''success'') \<Longrightarrow>
           cs \<noteq> [] \<and> map_of r ''chunks_created'' = Some (PyInt (int (length cs)))"
    and "map_of r ''status'' \<noteq> Some (PyStr ''success'') \<Longrightarrow> cs = []"
    and "\<forall>c\<in>set cs. map_of c ''file_index'' = Some (PyInt (int i))"
  using assms
  by (auto simp: process_file_def Let_def chunk_data_def enumerate_eq_Nil
      split: if_splits option.splits)


lemma chunk_text_nonempty:
  assumes "0 \<le> ov" "ov < S" "t \<noteq> []"
  shows "\<exists>r. chunk_text t S ov = Some r \<and> r \<noteq> []"
proof (cases "int (length (split t)) \<le> S")
  case True
  then show ?thesis using assms by (simp add: chunk_text_def)
next
  case False
  let ?W = "int (length (split t))"
  have lt: "0 + ov < ?W" using False assms by simp
  from chunk_loop_count[OF split_ok assms(1,2) order.refl lt, of "[]"]
  obtain r where r: "chunk_loop (split t) S ov 0 [] = Some r"
    "int (length r) = (?W - ov + (S - ov) - 1) div (S - ov)" by auto
  have "(?W - ov + (S - ov) - 1) div (S - ov) = 1 + (?W - ov - 1) div (S - ov)"
    using assms ceil_step[of "S - ov" "?W - ov"] by simp
  moreover have "0 \<le> (?W - ov - 1) div (S - ov)"
    using assms lt by (simp add: pos_imp_zdiv_nonneg_iff)
  ultimately have "0 < int (length r)" using r(2) by simp
  then have "r \<noteq> []" by auto
  with r(1) False assms show ?thesis by (simp add: chunk_text_def Let_def)
qed

lemma strip_Nil: "strip [] = []"
  by (simp add: strip_def)

lemma process_file_text:
  assumes "process_file L i f = Some (cs, r)"
    and "endswith (lower (name f)) ''.pdf''" and "file_size f \<noteq> 0"
  shows "strip (extract_text_from_pdf L f) = [] \<Longrightarrow>
           map_of r ''status'' = Some (PyStr ''failed'') \<and>
           map_of r ''reason'' = Some (PyStr ''No text content found'')"
    and "strip (extract_text_from_pdf L f) \<noteq> [] \<Longrightarrow>
           map_of r ''status'' = Some (PyStr ''success'') \<and>
           (\<exists>chunks. chunk_text (extract_text_from_pdf L f) 500 100 = Some chunks \<and>
              chunks \<noteq> [] \<and>
              cs = map (\<lambda>(k, c). chunk_data (name f) i (extract_text_from_pdf L f) k c)
                     (enumerate 0 chunks))"
proof -
  let ?t = "extract_text_from_pdf L f"
  show "map_of r ''status'' = Some (PyStr ''failed'') \<and>
        map_of r ''reason'' = Some (PyStr ''No text content found'')" if "strip ?t = []"
    using assms that by (auto simp: process_file_def Let_def)
  show "map_of r ''status'' = Some (PyStr ''success'') \<and>
           (\<exists>chunks. chunk_text ?t 500 100 = Some chunks \<and> chunks \<noteq> [] \<and>
              cs = map (\<lambda>(k, c). chunk_data (name f) i ?t k c) (enumerate 0 chunks))"
    if ne: "strip ?t \<noteq> []"
  proof -
    from ne have t: "?t \<noteq> []" using strip_Nil by auto
    from chunk_text_nonempty[of 100 500 ?t] t obtain chunks where
      c: "chunk_text ?t 500 100 = Some chunks" "chunks \<noteq> []" by auto
    with assms ne t show ?thesis by (auto simp: process_file_def Let_def)
  qed
qed

lemma process_files_acc:
  "process_files L i fs ac rs =
     Some (ac @ concat (map (\<lambda>j. fst (the (process_file L (i + j) (fs ! j)))) [0..<length fs]),
           rs @ map (\<lambda>j. snd (the (process_file L (i + j) (fs ! j)))) [0..<length fs])"
proof (induction fs arbitrary: i ac rs)
  case Nil
  then show ?case by simp
next
  case (Cons f fs)
  obtain cs r where f: "process_file L i f = Some (cs, r)"
    using process_file_some by blast
  have upt: "[0..<length (f # fs)] = 0 # map Suc [0..<length fs]"
    by (simp add: upt_conv_Cons map_Suc_upt del: upt_Suc)
  show ?case
    unfolding upt using f Cons.IH[of "Suc i" "ac @ cs" "rs @ [r]"]
    by (simp add: comp_def)
qed

lemma filter_concat_tagged:
  assumes "\<forall>j<length css. \<forall>c\<in>set (css ! j). tag c = j" and "i < length css"
  shows "filter (\<lambda>c. tag c = i) (concat css) = css ! i"
  using assms
proof (induction css rule: rev_induct)
  case Nil
  then show ?case by simp
next
  case (snoc cs css)
  have tags: "\<forall>j<length css. \<forall>c\<in>set (css ! j). tag c = j"
  proof (intro allI impI)
    fix j assume "j < length css"
    with snoc.prems(1)[rule_format, of j] show "\<forall>c\<in>set (css ! j). tag c = j"
      by (simp add: nth_append)
  qed
  have last: "\<forall>c\<in>set cs. tag c = length css"
    using snoc.prems(1)[rule_format, of "length css"] by simp
  show ?case
  proof (cases "i < length css")
    case True
    then have "filter (\<lambda>c. tag c = i) cs = []" using last by (auto simp: filter_empty_conv)
    with snoc.IH[OF tags True] True show ?thesis by (simp add: nth_append)
  next
    case False
    with snoc.prems(2) have i: "i = length css" by simp
    have "tag c \<noteq> i" if "c \<in> set (concat css)" for c
    proof -
      from that obtain cs' where "cs' \<in> set css" "c \<in> set cs'" by auto
      then obtain j where "j < length css" "c \<in> set (css ! j)"
        by (metis in_set_conv_nth)
      with tags have "tag c = j" by blast
      with \<open>j < length css\<close> i show ?thesis by simp
    qed
    then have "filter (\<lambda>c. tag c = i) (concat css) = []"
      by (simp add: filter_empty_conv)
    moreover have "filter (\<lambda>c. tag c = i) cs = cs" using last i by (simp add: filter_id_conv)
    ultimately show ?thesis using i by simp
  qed
qed

text \<open>
  Claim C3, amended. For every batch the loop of \<open>process_uploaded_pdfs\<close> ends without an
  exception, and its local list \<open>processing_results\<close> (logged, not returned) holds one
  entry per input file, in order, with the file's name: \<^verbatim>\<open>skipped\<close> for a name that does not
  end in \<^verbatim>\<open>.pdf\<close>, \<^verbatim>\<open>failed\<close> with reason \<^verbatim>\<open>Empty file\<close> for a PDF name of size zero, and for a
  \<^verbatim>\<open>success\<close> the number of chunks of that file, which is not zero. A file is reported
  \<^verbatim>\<open>success\<close> exactly when it has a PDF name, a size that is not zero and an extracted text
  that is not blank; its chunks are then the chunks that \<open>chunk_text\<close> cuts from this text,
  numbered from 0. A PDF of non-zero size with blank extracted text is \<^verbatim>\<open>failed\<close> with reason
  \<^verbatim>\<open>No text content found\<close>, and every file that is not a \<^verbatim>\<open>success\<close> adds no chunk. The
  function returns the chunks only; those of file \<open>i\<close> are what this file produces on its
  own, whatever happens to the other files of the batch.
\<close>

theorem process_files_results:
  "\<exists>all_chunks results.
     process_files L 0 files [] [] = Some (all_chunks, results) \<and>
     process_uploaded_pdfs L files = Some all_chunks \<and>
     length results = length files \<and>
     (\<forall>i<length files. \<exists>cs.
        process_file L i (files ! i) = Some (cs, results ! i) \<and>
        filter (\<lambda>c. map_of c ''file_index'' = Some (PyInt (int i))) all_chunks = cs \<and>
        map_of (results ! i) ''filename'' = Some (PyStr (name (files ! i))) \<and>
        (\<not> endswith (lower (name (files ! i))) ''.pdf'' \<longrightarrow>
           map_of (results ! i) ''status'' = Some (PyStr ''skipped'')) \<and>
        (endswith (lower (name (files ! i))) ''.pdf'' \<and> file_size (files ! i) = 0 \<longrightarrow>
           map_of (results ! i) ''status'' = Some (PyStr ''failed'') \<and>
           map_of (results ! i) ''reason'' = Some (PyStr ''Empty file'')) \<and>
        (map_of (results ! i) ''status'' = Some (PyStr ''success'') \<longrightarrow>
           cs \<noteq> [] \<and> map_of (results ! i) ''chunks_created'' = Some (PyInt (int (length cs)))) \<and>
        (map_of (results ! i) ''status'' \<noteq> Some (PyStr ''success'') \<longrightarrow> cs = []) \<and>
        (endswith (lower (name (files ! i))) ''.pdf'' \<and> file_size (files ! i) \<noteq> 0 \<and>
         strip (extract_text_from_pdf L (files ! i)) = [] \<longrightarrow>
           map_of (results ! i) ''status'' = Some (PyStr ''failed'') \<and>
           map_of (results ! i) ''reason'' = Some (PyStr ''No text content found'')) \<and>
        (endswith (lower (name (files ! i))) ''.pdf'' \<and> file_size (files ! i) \<noteq> 0 \<and>
         strip (extract_text_from_pdf L (files ! i)) \<noteq> [] \<longrightarrow>
           map_of (results ! i) ''status'' = Some (PyStr ''success'') \<and>
           (\<exists>chunks. chunk_text (extract_text_from_pdf L (files ! i)) 500 100 = Some chunks \<and>
              chunks \<noteq> [] \<and>
              cs = map (\<lambda>(k, c). chunk_data (name (files ! i)) i
                                    (extract_text_from_pdf L (files ! i)) k c)
                     (enumerate 0 chunks))))"
proof -
  let ?pf = "\<lambda>j. the (process_file L j (files ! j))"
  let ?css = "map (\<lambda>j. fst (?pf j)) [0..<length files]"
  let ?all = "concat ?css"
  let ?res = "map (\<lambda>j. snd (?pf j)) [0..<length files]"
  have run: "process_files L 0 files [] [] = Some (?all, ?res)"
    using process_files_acc[of L 0 files "[]" "[]"] by simp
  have pf: "process_file L j (files ! j) = Some (?css ! j, ?res ! j)" if "j < length files" for j
    using process_file_some[of L j "files ! j"] that by auto
  have tags: "\<forall>j<length ?css. \<forall>c\<in>set (?css ! j).
      (case map_of c ''file_index'' of Some (PyInt n) \<Rightarrow> nat n | _ \<Rightarrow> length files) = j"
  proof (intro allI impI ballI)
    fix j c assume j: "j < length ?css" and c: "c \<in> set (?css ! j)"
    then have "j < length files" by simp
    from process_file_entry(6)[OF pf[OF this]] c
    show "(case map_of c ''file_index'' of Some (PyInt n) \<Rightarrow> nat n | _ \<Rightarrow> length files) = j"
      by simp
  qed
  have sel: "filter (\<lambda>c. map_of c ''file_index'' = Some (PyInt (int i))) ?all = ?css ! i"
    if "i < length files" for i
  proof -
    have "filter (\<lambda>c. map_of c ''file_index'' = Some (PyInt (int i))) ?all
        = filter (\<lambda>c. (case map_of c ''file_index'' of Some (PyInt n) \<Rightarrow> nat n | _ \<Rightarrow> length files) = i) ?all"
    proof (rule filter_cong[OF refl])
      fix c assume "c \<in> set ?all"
      then obtain j where j: "j < length files" "c \<in> set (?css ! j)"
        by auto
      from process_file_entry(6)[OF pf[OF j(1)]] j(2)
      have "map_of c ''file_index'' = Some (PyInt (int j))" by simp
      then show "(map_of c ''file_index'' = Some (PyInt (int i)))
          = ((case map_of c ''file_index'' of Some (PyInt n) \<Rightarrow> nat n | _ \<Rightarrow> length files) = i)"
        by auto
    qed
    also have "\<dots> = ?css ! i" using filter_concat_tagged[OF tags, of i] that by simp
    finally show ?thesis .
  qed
  show ?thesis
  proof (rule exI[of _ ?all], rule exI[of _ ?res], intro conjI allI impI)
    show "process_files L 0 files [] [] = Some (?all, ?res)" by (rule run)
    show "process_uploaded_pdfs L files = Some ?all" by (simp add: process_uploaded_pdfs_def run)
    show "length ?res = length files" by simp
  next
    fix i assume i: "i < length files"
    show "\<exists>cs. process_file L i (files ! i) = Some (cs, ?res ! i) \<and>
        filter (\<lambda>c. map_of c ''file_index'' = Some (PyInt (int i))) ?all = cs \<and>
        map_of (?res ! i) ''filename'' = Some (PyStr (name (files ! i))) \<and>
        (\<not> endswith (lower (name (files ! i))) ''.pdf'' \<longrightarrow>
           map_of (?res ! i) ''status'' = Some (PyStr ''skipped'')) \<and>
        (endswith (lower (name (files ! i))) ''.pdf'' \<and> file_size (files ! i) = 0 \<longrightarrow>
           map_of (?res ! i) ''status'' = Some (PyStr ''failed'') \<and>
           map_of (?res ! i) ''reason'' = Some (PyStr ''Empty file'')) \<and>
        (map_of (?res ! i) ''status'' = Some (PyStr ''success'') \<longrightarrow>
           cs \<noteq> [] \<and> map_of (?res ! i) ''chunks_created'' = Some (PyInt (int (length cs)))) \<and>
        (map_of (?res ! i) ''status'' \<noteq> Some (PyStr ''success'') \<longrightarrow> cs = []) \<and>
        (endswith (lower (name (files ! i))) ''.pdf'' \<and> file_size (files ! i) \<noteq> 0 \<and>
         strip (extract_text_from_pdf L (files ! i)) = [] \<longrightarrow>
           map_of (?res ! i) ''status'' = Some (PyStr ''failed'') \<and>
           map_of (?res ! i) ''reason'' = Some (PyStr ''No text content found'')) \<and>
        (endswith (lower (name (files ! i))) ''.pdf'' \<and> file_size (files ! i) \<noteq> 0 \<and>
         strip (extract_text_from_pdf L (files ! i)) \<noteq> [] \<longrightarrow>
           map_of (?res ! i) ''status'' = Some (PyStr ''success'') \<and>
           (\<exists>chunks. chunk_text (extract_text_from_pdf L (files ! i)) 500 100 = Some chunks \<and>
              chunks \<noteq> [] \<and>
              cs = map (\<lambda>(k, c). chunk_data (name (files ! i)) i
                                    (extract_text_from_pdf L (files ! i)) k c)
                     (enumerate 0 chunks)))"
    proof (rule exI[of _ "?css ! i"], intro conjI impI)
      show "process_file L i (files ! i) = Some (?css ! i, ?res ! i)" by (rule pf[OF i])
      show "filter (\<lambda>c. map_of c ''file_index'' = Some (PyInt (int i))) ?all = ?css ! i"
        by (rule sel[OF i])
      show "map_of (?res ! i) ''filename'' = Some (PyStr (name (files ! i)))"
        by (rule process_file_entry(1)[OF pf[OF i]])
    next
      assume "\<not> endswith (lower (name (files ! i))) ''.pdf''"
      then show "map_of (?res ! i) ''status'' = Some (PyStr ''skipped'')"
        by (rule process_file_entry(2)[OF pf[OF i]])
    next
      assume e: "endswith (lower (name (files ! i))) ''.pdf'' \<and> file_size (files ! i) = 0"
      from process_file_entry(3)[OF pf[OF i]] e
      show "map_of (?res ! i) ''status'' = Some (PyStr ''failed'')"
        and "map_of (?res ! i) ''reason'' = Some (PyStr ''Empty file'')" by auto
    next
      assume s: "map_of (?res ! i) ''status'' = Some (PyStr ''success'')"
      from process_file_entry(4)[OF pf[OF i] s]
      show "?css ! i \<noteq> []"
        and "map_of (?res ! i) ''chunks_created'' = Some (PyInt (int (length (?css ! i))))"
        by auto
    next
      assume "map_of (?res ! i) ''status'' \<noteq> Some (PyStr ''success'')"
      then show "?css ! i = []" by (rule process_file_entry(5)[OF pf[OF i]])
    next
      assume e: "endswith (lower (name (files ! i))) ''.pdf'' \<and> file_size (files ! i) \<noteq> 0 \<and>
         strip (extract_text_from_pdf L (files ! i)) = []"
      from process_file_text(1)[OF pf[OF i]] e
      show "map_of (?res ! i) ''status'' = Some (PyStr ''failed'')"
        and "map_of (?res ! i) ''reason'' = Some (PyStr ''No text content found'')" by auto
    next
      assume e: "endswith (lower (name (files ! i))) ''.pdf'' \<and> file_size (files ! i) \<noteq> 0 \<and>
         strip (extract_text_from_pdf L (files ! i)) \<noteq> []"
      from process_file_text(2)[OF pf[OF i]] e
      show "map_of (?res ! i) ''status'' = Some (PyStr ''success'')"
        and "\<exists>chunks. chunk_text (extract_text_from_pdf L (files ! i)) 500 100 = Some chunks \<and>
              chunks \<noteq> [] \<and>
              ?css ! i = map (\<lambda>(k, c). chunk_data (name (files ! i)) i
                                    (extract_text_from_pdf L (files ! i)) k c)
                     (enumerate 0 chunks)" by auto
    qed
  qed
qed

text \<open>
  Claim C3, as stated, at a concrete input: for a batch of one file that is no PDF the
  function returns the empty list; the entry for the file exists in \<open>processing_results\<close>
  only.
\<close>

theorem process_uploaded_pdfs_returns_chunks_only:
  "process_uploaded_pdfs example_libs [other_file] = Some [] \<and>
   process_files example_libs 0 [other_file] [] []
     = Some ([], [[(''filename'', PyStr ''notes.txt''), (''status'', PyStr ''skipped''),
                   (''reason'', PyStr ''Not a PDF file'')]])"
proof -
  have "\<not> endswith (lower ''notes.txt'') ''.pdf''" by code_simp
  then show ?thesis by (simp add: process_uploaded_pdfs_def process_file_def other_file_def)
qed

lemma process_text_file:
  "process_file example_libs i text_file
     = Some ([chunk_data ''notes.PDF'' i ''alpha beta'' 0 ''alpha beta''],
             [(''filename'', PyStr ''notes.PDF''), (''status'', PyStr ''success''),
              (''chunks_created'', PyInt 1), (''text_length'', PyInt 10)])"
proof -
  have "endswith (lower ''notes.PDF'') ''.pdf''" by code_simp
  then show ?thesis
    by (simp add: process_file_def file_size_def extract_text_from_pdf_def example_libs_def
      text_page_def page_text_def clean_text_def strip_def isspace_def chunk_text_def split_def
      Let_def text_file_def)
qed

theorem process_files_results_witness:
  "\<exists>all_chunks results.
     process_files example_libs 0 [text_file, empty_file, text_file] [] [] = Some (all_chunks, results) \<and>
     length results = 3 \<and>
     map_of (results ! 0) ''status'' = Some (PyStr ''success'') \<and>
     map_of (results ! 0) ''chunks_created'' = Some (PyInt 1) \<and>
     map_of (results ! 1) ''status'' = Some (PyStr ''failed'') \<and>
     map_of (results ! 1) ''reason'' = Some (PyStr ''Empty file'') \<and>
     map_of (results ! 2) ''status'' = Some (PyStr ''success'') \<and>
     filter (\<lambda>c. map_of c ''file_index'' = Some (PyInt 2)) all_chunks
       = [chunk_data ''notes.PDF'' 2 ''alpha beta'' 0 ''alpha beta'']"
proof -
  let ?files = "[text_file, empty_file, text_file]"
  from process_files_results[of example_libs ?files] obtain all_chunks results where
    r: "process_files example_libs 0 ?files [] [] = Some (all_chunks, results)"
       "length results = length ?files"
    and p: "\<forall>i<length ?files. \<exists>cs.
        process_file example_libs i (?files ! i) = Some (cs, results ! i) \<and>
        filter (\<lambda>c. map_of c ''file_index'' = Some (PyInt (int i))) all_chunks = cs \<and>
        map_of (results ! i) ''filename'' = Some (PyStr (name (?files ! i))) \<and>
        (\<not> endswith (lower (name (?files ! i))) ''.pdf'' \<longrightarrow>
           map_of (results ! i) ''status'' = Some (PyStr ''skipped'')) \<and>
        (endswith (lower (name (?files ! i))) ''.pdf'' \<and> file_size (?files ! i) = 0 \<longrightarrow>
           map_of (results ! i) ''status'' = Some (PyStr ''failed'') \<and>
           map_of (results ! i) ''reason'' = Some (PyStr ''Empty file'')) \<and>
        (map_of (results ! i) ''status'' = Some (PyStr ''success'') \<longrightarrow>
           cs \<noteq> [] \<and> map_of (results ! i) ''chunks_created'' = Some (PyInt (int (length cs))))"
    by blast
  have "endswith (lower ''empty.pdf'') ''.pdf''" by code_simp
  then have e: "endswith (lower (name empty_file)) ''.pdf''" "file_size empty_file = 0"
    by (simp_all add: empty_file_def file_size_def)
  from p[rule_format, of 0] obtain cs0 where
    "process_file example_libs 0 text_file = Some (cs0, results ! 0)" by auto
  then have "results ! 0 = [(''filename'', PyStr ''notes.PDF''), (''status'', PyStr ''success''),
              (''chunks_created'', PyInt 1), (''text_length'', PyInt 10)]"
    by (simp add: process_text_file)
  then have r0: "map_of (results ! 0) ''status'' = Some (PyStr ''success'')"
    "map_of (results ! 0) ''chunks_created'' = Some (PyInt 1)"
    by simp_all
  from p[rule_format, of 1] obtain cs1 where
    "endswith (lower (name empty_file)) ''.pdf'' \<and> file_size empty_file = 0 \<longrightarrow>
       map_of (results ! 1) ''status'' = Some (PyStr ''failed'') \<and>
       map_of (results ! 1) ''reason'' = Some (PyStr ''Empty file'')" by auto
  with e have r1: "map_of (results ! 1) ''status'' = Some (PyStr ''failed'')"
    "map_of (results ! 1) ''reason'' = Some (PyStr ''Empty file'')"
    by simp_all
  from p[rule_format, of 2] obtain cs2 where
    "process_file example_libs 2 text_file = Some (cs2, results ! 2)"
    "filter (\<lambda>c. map_of c ''file_index'' = Some (PyInt 2)) all_chunks = cs2" by auto
  then have "results ! 2 = [(''filename'', PyStr ''notes.PDF''), (''status'', PyStr ''success''),
              (''chunks_created'', PyInt 1), (''text_length'', PyInt 10)]"
    "filter (\<lambda>c. map_of c ''file_index'' = Some (PyInt 2)) all_chunks
       = [chunk_data ''notes.PDF'' 2 ''alpha beta'' 0 ''alpha beta'']"
    by (simp_all add: process_text_file)
  then have r2: "map_of (results ! 2) ''status'' = Some (PyStr ''success'')"
    "filter (\<lambda>c. map_of c ''file_index'' = Some (PyInt 2)) all_chunks
       = [chunk_data ''notes.PDF'' 2 ''alpha beta'' 0 ''alpha beta'']"
    by simp_all
  from r r0 r1 r2 show ?thesis by simp
qed

text \<open>
  Claim C2 at a concrete input: a PDF of one page without text in any of the three
  extractions. The extractor returns the fixed message, which is not empty; the batch
  processor therefore takes the message for the text of the document, cuts it into one
  chunk and records \<^verbatim>\<open>success\<close>, not \<^verbatim>\<open>failed\<close> with \<^verbatim>\<open>No text content found\<close>.
\<close>

theorem scanned_pdf_reported_success:
  "extract_text_from_pdf example_libs scanned_file = no_text_message \<and>
   no_text_message \<noteq> [] \<and>
   process_files example_libs 0 [scanned_file] [] []
     = Some ([chunk_data ''scan.pdf'' 0 no_text_message 0 no_text_message],
             [[(''filename'', PyStr ''scan.pdf''), (''status'', PyStr ''success''),
               (''chunks_created'', PyInt 1),
               (''text_length'', PyInt (int (length no_text_message)))]])"
proof -
  have x: "extract_text_from_pdf example_libs scanned_file = no_text_message"
    by (simp add: extract_text_from_pdf_def scanned_file_def example_libs_def blank_page_def
        page_text_def strip_def)
  have n: "no_text_message \<noteq> []" "strip no_text_message \<noteq> []"
    by (simp_all add: no_text_message_def strip_def isspace_def)
  have "length (split no_text_message) = 22"
    by (simp add: no_text_message_def split_def isspace_def)
  then have c: "chunk_text no_text_message 500 100 = Some [no_text_message]"
    using n by (simp add: chunk_text_def)
  have "process_file example_libs 0 scanned_file
     = Some ([chunk_data ''scan.pdf'' 0 no_text_message 0 no_text_message],
             [(''filename'', PyStr ''scan.pdf''), (''status'', PyStr ''success''),
               (''chunks_created'', PyInt 1),
               (''text_length'', PyInt (int (length no_text_message)))])"
  proof -
    have "endswith (lower ''scan.pdf'') ''.pdf''" by code_simp
    then show ?thesis using x n c
      by (simp add: process_file_def file_size_def) (simp add: scanned_file_def)
  qed
  with x n show ?thesis by simp
qed

end
